theory Spec2Isabelle
  imports
    Complex_Main
    "HOL-Library.Product_Lexorder"
    "HOL-Library.Char_ord"
    "HOL-Library.List_Lexorder"
begin

section \<open>Box calculator: stacking volume estimate and box selection\<close>

text \<open>
  A shallow embedding of \<^verbatim>\<open>app.py\<close>. Python's \<^verbatim>\<open>float\<close> values are read as the real
  numbers they denote and every float operation as the exact operation on reals, so
  rounding, infinities and NaN are outside the model. Python's \<^verbatim>\<open>int\<close> is \<^typ>\<open>int\<close>.
  Exceptions are values of type \<open>py_error\<close>; a function that can raise returns
  \<open>py_error + 'a\<close>.
\<close>

subsection \<open>Data\<close>

datatype py_error = ZeroDivisionError | KeyError | IndexError

text \<open>One entry of the list built by \<^verbatim>\<open>calcular_itens\<close> (a dict with these six keys).\<close>

record item =
  nome :: string
  qtd :: int
  m3 :: real
  empilhavel :: bool
  max_emp :: int
  altura :: real

text \<open>
  One row of \<^verbatim>\<open>df_boxes\<close>, with the columns the program reads. The rows come from a
  spreadsheet; the functions below take the list of rows as an argument, in the order
  \<^verbatim>\<open>iterrows\<close> yields them.
\<close>

record box =
  Box :: string
  Largura :: real
  Comprimento :: real
  Altura :: real
  Metros_Cubicos :: real

text \<open>
  The lines of \<^verbatim>\<open>detalhes\<close> are f-strings. Each is kept as the tuple of the values it
  interpolates, in the order they occur in the text:
  \<^item> \<open>DetEmpilha qtd nome pilhas v_item camadas_por_pilha altura_pilha\<close>,
  \<^item> \<open>DetNaoEmpilha qtd nome v_item alt\<close>.
\<close>

datatype detalhe =
  DetEmpilha int string int real int real
| DetNaoEmpilha int string real real

text \<open>The volume and the height a line of the breakdown reports for its item.\<close>

fun det_volume :: "detalhe \<Rightarrow> real" where
  "det_volume (DetEmpilha q n p v c a) = v"
| "det_volume (DetNaoEmpilha q n v a) = v"

fun det_altura :: "detalhe \<Rightarrow> real" where
  "det_altura (DetEmpilha q n p v c a) = a"
| "det_altura (DetNaoEmpilha q n v a) = a"

text \<open>
  The result of \<^verbatim>\<open>volume_para_box\<close>: \<open>Volume total max_alt_uso detalhes\<close>, or
  \<open>NaoCabe nome alt altura_box\<close> for the tuple \<^verbatim>\<open>(None, None, motivo)\<close>, whose text
  interpolates the item's name, its height and the height of the box.
\<close>

datatype res_volume =
  Volume real real "detalhe list"
| NaoCabe string real real

subsection \<open>\<^verbatim>\<open>volume_para_box\<close>\<close>

text \<open>
  The \<^verbatim>\<open>for\<close> loop, with the three accumulators \<^verbatim>\<open>total\<close> (here \<open>total'\<close>),
  \<^verbatim>\<open>max_alt_uso\<close> and \<^verbatim>\<open>detalhes\<close> as arguments. \<^verbatim>\<open>altura_box // alt\<close> raises on a zero divisor;
  \<^verbatim>\<open>return\<close> inside the loop ends it, with the three values its text interpolates.
\<close>

fun volume_loop ::
  "item list \<Rightarrow> real \<Rightarrow> real \<Rightarrow> real \<Rightarrow> detalhe list \<Rightarrow>
     py_error + (string \<times> real \<times> real) + (real \<times> real \<times> detalhe list)"
where
  "volume_loop [] altura_box total' max_alt_uso detalhes =
     Inr (Inr (total', max_alt_uso, detalhes))"
| "volume_loop (it # itens) altura_box total' max_alt_uso detalhes =
     (if empilhavel it then
        if altura it = 0 then Inl ZeroDivisionError
        else
          let camadas_por_pilha = min \<lfloor>altura_box / altura it\<rfloor> (max_emp it) in
          if camadas_por_pilha < 1 then
            Inr (Inl (nome it, altura it, altura_box))
          else
            let pilhas = \<lceil>real_of_int (qtd it) / real_of_int camadas_por_pilha\<rceil>;
                v_item = real_of_int pilhas * m3 it;
                altura_pilha = real_of_int (min camadas_por_pilha (qtd it)) * altura it
            in volume_loop itens altura_box (total' + v_item) (max max_alt_uso altura_pilha)
                 (detalhes @
                  [DetEmpilha (qtd it) (nome it) pilhas v_item camadas_por_pilha altura_pilha])
      else
        let v_item = real_of_int (qtd it) * m3 it
        in volume_loop itens altura_box (total' + v_item) (max max_alt_uso (altura it))
             (detalhes @ [DetNaoEmpilha (qtd it) (nome it) v_item (altura it)]))"

definition volume_para_box :: "item list \<Rightarrow> real \<Rightarrow> real \<Rightarrow> py_error + res_volume" where
  "volume_para_box itens altura_box folga =
     (case volume_loop itens altura_box 0 0 [] of
        Inl e \<Rightarrow> Inl e
      | Inr (Inl (n, a, h)) \<Rightarrow> Inr (NaoCabe n a h)
      | Inr (Inr (total', max_alt_uso, detalhes)) \<Rightarrow>
          Inr (Volume (total' * (1 + folga)) max_alt_uso detalhes))"

text \<open>The default value of the parameter \<^verbatim>\<open>folga\<close>.\<close>

definition folga_padrao :: real where
  "folga_padrao = 0.15"

subsection \<open>\<^verbatim>\<open>escolher_box_por_altura\<close>\<close>

text \<open>
  The result: \<open>Escolhido box volume_calc altura_usada detalhes\<close>, or \<open>Nenhum motivo\<close>
  for the tuple \<^verbatim>\<open>(None, None, None, motivo)\<close>.
\<close>

datatype escolha =
  Escolhido box real real "detalhe list"
| Nenhum string

text \<open>The text returned when no box is a candidate, as UTF-8 bytes.\<close>

definition motivo_nenhum_box :: string where
  "motivo_nenhum_box =
     ''Nenhum box atende ao volume/altura ap'' @ [CHR 0xC3, CHR 0xB3] @
     ''s simular empilhamento pela altura do box.''"

type_synonym candidato = "real \<times> real \<times> detalhe list \<times> box"

text \<open>
  The loop over \<^verbatim>\<open>df_boxes.iterrows()\<close>, with the list \<^verbatim>\<open>candidatos\<close> as accumulator.
  Both results of \<^verbatim>\<open>volume_para_box\<close> are tuples of length 3, so the first branch of the
  \<^verbatim>\<open>isinstance\<close> test is always taken; \<^verbatim>\<open>vol is None\<close> holds exactly for \<open>NaoCabe\<close>.
\<close>

fun candidatos_loop :: "item list \<Rightarrow> box list \<Rightarrow> candidato list \<Rightarrow> py_error + candidato list" where
  "candidatos_loop itens [] candidatos = Inr candidatos"
| "candidatos_loop itens (box # boxes) candidatos =
     (case volume_para_box itens (Altura box) folga_padrao of
        Inl e \<Rightarrow> Inl e
      | Inr (NaoCabe n a h) \<Rightarrow> candidatos_loop itens boxes candidatos
      | Inr (Volume vol alt_uso detalhes) \<Rightarrow>
          if Metros_Cubicos box \<ge> vol
          then candidatos_loop itens boxes (candidatos @ [(vol, alt_uso, detalhes, box)])
          else candidatos_loop itens boxes candidatos)"

text \<open>The sort key \<^verbatim>\<open>lambda t: (t[3]["Metros Cubicos"], t[0])\<close>; pairs compare lexicographically.\<close>

definition chave :: "candidato \<Rightarrow> real \<times> real" where
  "chave t = (case t of (vol, alt_uso, detalhes, box) \<Rightarrow> (Metros_Cubicos box, vol))"

text \<open>
  \<^verbatim>\<open>list.sort\<close> is stable, as \<^const>\<open>sort_key\<close> is. \<^verbatim>\<open>candidatos[0]\<close> is read from a
  list that is not empty.
\<close>

definition escolher_box_por_altura :: "item list \<Rightarrow> box list \<Rightarrow> py_error + escolha" where
  "escolher_box_por_altura itens df_boxes =
     (case candidatos_loop itens df_boxes [] of
        Inl e \<Rightarrow> Inl e
      | Inr candidatos \<Rightarrow>
          if candidatos = [] then Inr (Nenhum motivo_nenhum_box)
          else (case sort_key chave candidatos of
                  [] \<Rightarrow> Inl IndexError
                | melhor # _ \<Rightarrow>
                    (case melhor of (vol, alt_uso, detalhes, box) \<Rightarrow>
                       Inr (Escolhido box vol alt_uso detalhes))))"

subsection \<open>Text helpers\<close>

text \<open>
  Text is modelled as ASCII: a \<^typ>\<open>string\<close> is the list of the characters of a Python
  \<^verbatim>\<open>str\<close> whose code points are all below 128. The program applies \<^verbatim>\<open>slugify\<close> to
  the keys of \<^verbatim>\<open>catalogo\<close> only, which are ASCII.

  The ASCII characters for which \<^verbatim>\<open>str.isspace\<close> holds; \<^verbatim>\<open>strip()\<close> and the class
  \<^verbatim>\<open>\s\<close> of \<^verbatim>\<open>re\<close> use the same set.
\<close>

definition py_isspace :: "char \<Rightarrow> bool" where
  "py_isspace c = (let n = (of_char c :: nat) in (9 \<le> n \<and> n \<le> 13) \<or> (28 \<le> n \<and> n \<le> 32))"

definition py_isdigit :: "char \<Rightarrow> bool" where
  "py_isdigit c = (let n = (of_char c :: nat) in 48 \<le> n \<and> n \<le> 57)"

definition py_strip :: "string \<Rightarrow> string" where
  "py_strip s = rev (dropWhile py_isspace (rev (dropWhile py_isspace s)))"

definition py_lower :: "string \<Rightarrow> string" where
  "py_lower s =
     map (\<lambda>c. let n = (of_char c :: nat) in if 65 \<le> n \<and> n \<le> 90 then char_of (n + 32) else c) s"

text \<open>
  \<^verbatim>\<open>remove_acentos\<close> decomposes the text (NFD) and drops the combining marks. An ASCII
  character is its own decomposition and none is a combining mark.
\<close>

definition remove_acentos :: "string \<Rightarrow> string" where
  "remove_acentos s = s"

text \<open>\<^verbatim>\<open>re.sub(r"[^a-z0-9\s\-_/]", "", s)\<close>: the characters that are kept.\<close>

definition slug_char :: "char \<Rightarrow> bool" where
  "slug_char c =
     (let n = (of_char c :: nat) in
        (97 \<le> n \<and> n \<le> 122) \<or> py_isdigit c \<or> py_isspace c \<or>
        c = CHR ''-'' \<or> c = CHR ''_'' \<or> c = CHR ''/'')"

text \<open>\<^verbatim>\<open>s.replace(a, b)\<close> for single characters, and \<^verbatim>\<open>s.replace("  ", " ")\<close>, which
  replaces the occurrences found from left to right without overlap.\<close>

definition replace_char :: "char \<Rightarrow> char \<Rightarrow> string \<Rightarrow> string" where
  "replace_char a b s = map (\<lambda>c. if c = a then b else c) s"

fun replace_2sp :: "string \<Rightarrow> string" where
  "replace_2sp (c # d # cs) =
     (if c = CHR '' '' \<and> d = CHR '' '' then CHR '' '' # replace_2sp cs
      else c # replace_2sp (d # cs))"
| "replace_2sp cs = cs"

text \<open>\<^verbatim>\<open>re.sub(r"\s+", "_", s)\<close>: every maximal run of whitespace becomes one underscore.
  The flag says that the previous character was whitespace.\<close>

fun sub_ws :: "bool \<Rightarrow> string \<Rightarrow> string" where
  "sub_ws prev [] = []"
| "sub_ws prev (c # cs) =
     (if py_isspace c then (if prev then sub_ws True cs else CHR ''_'' # sub_ws True cs)
      else c # sub_ws False cs)"

definition strip_underscore :: "string \<Rightarrow> string" where
  "strip_underscore s =
     rev (dropWhile (\<lambda>c. c = CHR ''_'') (rev (dropWhile (\<lambda>c. c = CHR ''_'') s)))"

definition slugify :: "string \<Rightarrow> string" where
  "slugify s0 =
     (let s = remove_acentos (py_lower (py_strip s0));
          s = filter slug_char s;
          s = replace_2sp (replace_char CHR ''-'' CHR '' '' (replace_char CHR ''/'' CHR '' '' s))
      in strip_underscore (sub_ws False s))"

text \<open>
  \<^verbatim>\<open>int(raw)\<close> on ASCII text: \<open>None\<close> when it raises \<^verbatim>\<open>ValueError\<close>. The text is
  stripped of whitespace, then an optional sign, then decimal digits, where single
  underscores may stand between digits.
\<close>

definition digit_val :: "char \<Rightarrow> int" where
  "digit_val c = int (of_char c) - 48"

fun py_digits :: "int \<Rightarrow> string \<Rightarrow> int option" where
  "py_digits acc [] = Some acc"
| "py_digits acc (c # cs) =
     (if py_isdigit c then py_digits (acc * 10 + digit_val c) cs
      else if c = CHR ''_'' then
        (case cs of [] \<Rightarrow> None | d # _ \<Rightarrow> if py_isdigit d then py_digits acc cs else None)
      else None)"

definition py_digitpart :: "string \<Rightarrow> int option" where
  "py_digitpart s =
     (case s of [] \<Rightarrow> None
      | c # cs \<Rightarrow> if py_isdigit c then py_digits (digit_val c) cs else None)"

definition py_int :: "string \<Rightarrow> int option" where
  "py_int raw =
     (case py_strip raw of [] \<Rightarrow> None
      | c # cs \<Rightarrow>
          if c = CHR ''-'' then map_option uminus (py_digitpart cs)
          else if c = CHR ''+'' then py_digitpart cs
          else py_digitpart (c # cs))"

subsection \<open>The catalogue\<close>

text \<open>
  An entry of \<^verbatim>\<open>catalogo\<close>: the key \<^verbatim>\<open>"m3"\<close> is read with \<^verbatim>\<open>meta["m3"]\<close>, the other
  keys with \<^verbatim>\<open>meta.get\<close> and a default, so they may be absent.
\<close>

record meta =
  meta_m3 :: real
  meta_empilhavel :: "bool option"
  meta_max_emp :: "int option"
  meta_altura :: "real option"

definition mk_meta :: "real \<Rightarrow> bool \<Rightarrow> int option \<Rightarrow> real \<Rightarrow> meta" where
  "mk_meta v e m a =
     \<lparr>meta_m3 = v, meta_empilhavel = Some e, meta_max_emp = m, meta_altura = Some a\<rparr>"

text \<open>The dict literal, in its order; no key occurs twice.\<close>

definition catalogo :: "(string \<times> meta) list" where
  "catalogo =
     [
      (''sofa'', mk_meta 2.50 False None 1.00),
      (''geladeira'', mk_meta 1.20 False None 1.80),
      (''mesa'', mk_meta 1.80 False None 0.75),
      (''cadeira de jantar'', mk_meta 0.50 True (Some 4) 1.00),
      (''caixa pequena'', mk_meta 0.10 True (Some 6) 0.40),
      (''caixa media'', mk_meta 0.30 True (Some 5) 0.50),
      (''caixa grande'', mk_meta 0.50 True (Some 4) 0.60),
      (''fogao'', mk_meta 0.30 False None 0.90),
      (''cama box'', mk_meta 1.60 False None 0.60),
      (''colchao de casal'', mk_meta 0.80 True (Some 3) 0.25),
      (''colchao de solteiro'', mk_meta 0.50 True (Some 3) 0.25),
      (''maquina de lavar'', mk_meta 0.30 False None 1.00),
      (''mesa de jantar'', mk_meta 0.84 False None 0.75),
      (''rack'', mk_meta 0.22 False None 0.55),
      (''sofa 2 lugares'', mk_meta 1.18 False None 0.90),
      (''sofa 3 lugares'', mk_meta 2.34 False None 1.00),
      (''tv'', mk_meta 0.41 False None 0.70),
      (''escrivaninha'', mk_meta 0.41 False None 0.75),
      (''cadeira de escritorio'', mk_meta 0.30 True (Some 3) 1.00),
      (''poltrona'', mk_meta 0.53 False None 1.00)
     ]"

text \<open>\<^verbatim>\<open>meta.get("empilhavel", False)\<close>, \<^verbatim>\<open>meta.get("max_emp", 1)\<close>, \<^verbatim>\<open>meta.get("altura", 0.5)\<close>.\<close>

definition get_empilhavel :: "meta \<Rightarrow> bool" where
  "get_empilhavel mt = (case meta_empilhavel mt of None \<Rightarrow> False | Some b \<Rightarrow> b)"

definition get_max_emp :: "meta \<Rightarrow> int" where
  "get_max_emp mt = (case meta_max_emp mt of None \<Rightarrow> 1 | Some n \<Rightarrow> n)"

definition get_altura :: "meta \<Rightarrow> real" where
  "get_altura mt = (case meta_altura mt of None \<Rightarrow> 0.5 | Some a \<Rightarrow> a)"

subsection \<open>\<^verbatim>\<open>calcular_itens\<close>\<close>

text \<open>
  \<^verbatim>\<open>{slugify(k): k for k in catalogo.keys()}\<close>: the keys are entered in the order of the
  catalogue, a later key replacing an earlier one with the same slug.
\<close>

definition slug_to_nome :: "string \<rightharpoonup> string" where
  "slug_to_nome = foldl (\<lambda>m k. m(slugify k \<mapsto> k)) Map.empty (map fst catalogo)"

text \<open>
  The request \<^verbatim>\<open>qtd_por_slug\<close> is a dict, which iterates in insertion order: a list of
  pairs. The loop has the list \<^verbatim>\<open>itens\<close> as accumulator. \<^verbatim>\<open>not nome\<close> holds for a
  missing slug and for the empty name; \<^verbatim>\<open>catalogo[nome]\<close> raises on a missing key.
  The quantities are integers, on which \<^verbatim>\<open>int(qtd)\<close> is the identity.
\<close>

fun calcular_loop :: "(string \<times> int) list \<Rightarrow> item list \<Rightarrow> py_error + item list" where
  "calcular_loop [] itens = Inr itens"
| "calcular_loop ((slug, qtd') # rest) itens =
     (if qtd' \<le> 0 then calcular_loop rest itens
      else
        (case slug_to_nome slug of
           None \<Rightarrow> calcular_loop rest itens
         | Some nome' \<Rightarrow>
             if nome' = [] then calcular_loop rest itens
             else
               (case map_of catalogo nome' of
                  None \<Rightarrow> Inl KeyError
                | Some mt \<Rightarrow>
                    calcular_loop rest
                      (itens @
                       [\<lparr>nome = nome', qtd = qtd', m3 = meta_m3 mt,
                         empilhavel = get_empilhavel mt, max_emp = get_max_emp mt,
                         altura = get_altura mt\<rparr>]))))"

definition calcular_itens :: "(string \<times> int) list \<Rightarrow> py_error + item list" where
  "calcular_itens qtd_por_slug = calcular_loop qtd_por_slug []"

subsection \<open>The route \<^verbatim>\<open>index\<close>, on a POST request\<close>

text \<open>The list \<^verbatim>\<open>itens_ui\<close>: one entry per key of the catalogue, sorted by name
  (\<^verbatim>\<open>sorted\<close> is stable; text compares by code point).\<close>

record item_ui =
  ui_nome :: string
  ui_slug :: string
  ui_m3 :: real
  ui_empilhavel :: bool
  ui_max_emp :: int
  ui_altura :: real

definition itens_ui :: "item_ui list" where
  "itens_ui =
     sort_key ui_nome
       (map (\<lambda>(nome', mt).
               \<lparr>ui_nome = nome', ui_slug = slugify nome', ui_m3 = meta_m3 mt,
                ui_empilhavel = get_empilhavel mt, ui_max_emp = get_max_emp mt,
                ui_altura = get_altura mt\<rparr>)
            catalogo)"

text \<open>\<^verbatim>\<open>d[k] = v\<close> on a dict kept as a list of pairs: a key that is present keeps its
  place.\<close>

fun dict_set :: "('k \<times> 'v) list \<Rightarrow> 'k \<Rightarrow> 'v \<Rightarrow> ('k \<times> 'v) list" where
  "dict_set [] k v = [(k, v)]"
| "dict_set ((k', v') # kvs) k v =
     (if k' = k then (k, v) # kvs else (k', v') # dict_set kvs k v)"

text \<open>
  The form is a mapping from field names to text. One field is read as
  \<^verbatim>\<open>(request.form.get(field, "0") or "0").strip()\<close>, parsed inside \<^verbatim>\<open>try\<close> with a bare
  \<^verbatim>\<open>except\<close> that sets 0, and clamped with \<^verbatim>\<open>max(0, qtd)\<close>.
\<close>

definition ler_campo :: "(string \<rightharpoonup> string) \<Rightarrow> string \<Rightarrow> int" where
  "ler_campo form field =
     (let raw = py_strip (case form field of None \<Rightarrow> ''0'' | Some v \<Rightarrow> if v = [] then ''0'' else v);
          qtd' = (case py_int raw of None \<Rightarrow> 0 | Some n \<Rightarrow> n)
      in max 0 qtd')"

fun ler_loop :: "item_ui list \<Rightarrow> (string \<rightharpoonup> string) \<Rightarrow> (string \<times> int) list \<Rightarrow> (string \<times> int) list" where
  "ler_loop [] form qtd_por_slug = qtd_por_slug"
| "ler_loop (it # rest) form qtd_por_slug =
     ler_loop rest form
       (dict_set qtd_por_slug (ui_slug it) (ler_campo form (''qty_'' @ ui_slug it)))"

definition ler_quantidades :: "(string \<rightharpoonup> string) \<Rightarrow> (string \<times> int) list" where
  "ler_quantidades form = ler_loop itens_ui form []"

text \<open>The two calls of the route; the HTML built from their results is not modelled.\<close>

definition index_post :: "(string \<rightharpoonup> string) \<Rightarrow> box list \<Rightarrow> py_error + item list \<times> escolha" where
  "index_post form df_boxes =
     (case calcular_itens (ler_quantidades form) of
        Inl e \<Rightarrow> Inl e
      | Inr itens_sel \<Rightarrow>
          (case escolher_box_por_altura itens_sel df_boxes of
             Inl e \<Rightarrow> Inl e
           | Inr r \<Rightarrow> Inr (itens_sel, r)))"

subsection \<open>Vocabulary for the properties\<close>

text \<open>
  The line the loop of \<^verbatim>\<open>volume_para_box\<close> appends for an item, and the condition
  under which the loop goes past the item (neither the exception nor the \<^verbatim>\<open>return\<close>).
\<close>

definition detalhe_item :: "real \<Rightarrow> item \<Rightarrow> detalhe" where
  "detalhe_item altura_box it =
     (if empilhavel it then
        let camadas_por_pilha = min \<lfloor>altura_box / altura it\<rfloor> (max_emp it);
            pilhas = \<lceil>real_of_int (qtd it) / real_of_int camadas_por_pilha\<rceil>
        in DetEmpilha (qtd it) (nome it) pilhas (real_of_int pilhas * m3 it) camadas_por_pilha
             (real_of_int (min camadas_por_pilha (qtd it)) * altura it)
      else DetNaoEmpilha (qtd it) (nome it) (real_of_int (qtd it) * m3 it) (altura it))"

definition item_passa :: "real \<Rightarrow> item \<Rightarrow> bool" where
  "item_passa altura_box it =
     (if empilhavel it
      then altura it \<noteq> 0 \<and> \<not> min \<lfloor>altura_box / altura it\<rfloor> (max_emp it) < 1
      else True)"

text \<open>
  The volume \<^verbatim>\<open>escolher_box_por_altura\<close> computes for a box, when there is one; the
  candidate the loop appends for a box; a box is eligible when it yields a candidate.
\<close>

definition volume_de :: "item list \<Rightarrow> box \<Rightarrow> real option" where
  "volume_de itens b =
     (case volume_para_box itens (Altura b) folga_padrao of
        Inr (Volume vol alt_uso detalhes) \<Rightarrow> Some vol
      | _ \<Rightarrow> None)"

definition candidato_de :: "item list \<Rightarrow> box \<Rightarrow> candidato option" where
  "candidato_de itens b =
     (case volume_para_box itens (Altura b) folga_padrao of
        Inr (Volume vol alt_uso detalhes) \<Rightarrow>
          if Metros_Cubicos b \<ge> vol then Some (vol, alt_uso, detalhes, b) else None
      | _ \<Rightarrow> None)"

definition elegivel :: "item list \<Rightarrow> box \<Rightarrow> bool" where
  "elegivel itens b =
     (case volume_de itens b of Some vol \<Rightarrow> vol \<le> Metros_Cubicos b | None \<Rightarrow> False)"

text \<open>No stackable item has height zero, so \<^verbatim>\<open>altura_box // alt\<close> never raises.\<close>

definition sem_altura_zero :: "item list \<Rightarrow> bool" where
  "sem_altura_zero itens = list_all (\<lambda>it. \<not> (empilhavel it \<and> altura it = 0)) itens"

text \<open>
  The item the loop of \<^verbatim>\<open>calcular_itens\<close> appends for an entry of the request, when it
  appends one.
\<close>

definition item_da_entrada :: "string \<times> int \<Rightarrow> item option" where
  "item_da_entrada e =
     (case e of (slug, qtd') \<Rightarrow>
        if qtd' \<le> 0 then None
        else
          (case slug_to_nome slug of
             None \<Rightarrow> None
           | Some nome' \<Rightarrow>
               if nome' = [] then None
               else
                 (case map_of catalogo nome' of
                    None \<Rightarrow> None
                  | Some mt \<Rightarrow>
                      Some \<lparr>nome = nome', qtd = qtd', m3 = meta_m3 mt,
                            empilhavel = get_empilhavel mt, max_emp = get_max_emp mt,
                            altura = get_altura mt\<rparr>)))"

text \<open>
  The place of a name among the keys of the catalogue, and a list of names that follows
  the order of the catalogue.
\<close>

definition posicao :: "string \<Rightarrow> nat" where
  "posicao n = length (takeWhile (\<lambda>k. k \<noteq> n) (map fst catalogo))"

definition em_ordem_do_catalogo :: "string list \<Rightarrow> bool" where
  "em_ordem_do_catalogo nomes = sorted (map posicao nomes)"

subsection \<open>Inputs for the examples\<close>

definition ex_caixa :: item where
  "ex_caixa = \<lparr>nome = ''caixa pequena'', qtd = 10, m3 = 0.10, empilhavel = True, max_emp = 6,
                altura = 0.40\<rparr>"


definition ex_geladeira :: item where
  "ex_geladeira = \<lparr>nome = ''geladeira'', qtd = 2, m3 = 1.20, empilhavel = False, max_emp = 1,
                    altura = 1.80\<rparr>"

definition ex_sofa :: item where
  "ex_sofa = \<lparr>nome = ''sofa'', qtd = 2, m3 = 2.50, empilhavel = False, max_emp = 1,
               altura = 1.00\<rparr>"

text \<open>A row with the given name, height and capacity.\<close>

definition ex_box :: "string \<Rightarrow> real \<Rightarrow> real \<Rightarrow> box" where
  "ex_box n h c = \<lparr>Box = n, Largura = 1, Comprimento = 1, Altura = h, Metros_Cubicos = c\<rparr>"

section \<open>Properties\<close>

subsection \<open>The loop of \<^verbatim>\<open>volume_para_box\<close>\<close>

lemma item_passa_iff:
  "item_passa h it \<longleftrightarrow>
     (empilhavel it \<longrightarrow> altura it \<noteq> 0 \<and> \<not> min \<lfloor>h / altura it\<rfloor> (max_emp it) < 1)"
  unfolding item_passa_def by (cases "empilhavel it") (simp_all only: if_True if_False simp_thms)

lemma volume_loop_passo:
  assumes "item_passa h it"
  shows "volume_loop (it # itens) h t m d =
     volume_loop itens h (t + det_volume (detalhe_item h it))
       (max m (det_altura (detalhe_item h it))) (d @ [detalhe_item h it])"
proof (cases "empilhavel it")
  case True
  define c where "c = min \<lfloor>h / altura it\<rfloor> (max_emp it)"
  from assms True have a: "altura it \<noteq> 0" and c1: "\<not> c < 1"
    unfolding c_def item_passa_iff by blast+
  have "volume_loop (it # itens) h t m d =
      (let pilhas = \<lceil>real_of_int (qtd it) / real_of_int c\<rceil>;
           v_item = real_of_int pilhas * m3 it;
           altura_pilha = real_of_int (min c (qtd it)) * altura it
       in volume_loop itens h (t + v_item) (max m altura_pilha)
            (d @ [DetEmpilha (qtd it) (nome it) pilhas v_item c altura_pilha]))"
    unfolding volume_loop.simps c_def using True a c1 [unfolded c_def] by (simp only: if_True if_False Let_def)
  moreover have "detalhe_item h it =
      DetEmpilha (qtd it) (nome it) \<lceil>real_of_int (qtd it) / real_of_int c\<rceil>
        (real_of_int \<lceil>real_of_int (qtd it) / real_of_int c\<rceil> * m3 it) c
        (real_of_int (min c (qtd it)) * altura it)"
    unfolding detalhe_item_def c_def using True by (simp only: if_True Let_def)
  ultimately show ?thesis by (simp add: Let_def)
next
  case False
  then show ?thesis by (simp add: detalhe_item_def Let_def)
qed

lemma volume_loop_nao_passa:
  assumes "\<not> item_passa h it"
  shows "volume_loop (it # itens) h t m d =
     (if altura it = 0 then Inl ZeroDivisionError
      else Inr (Inl (nome it, altura it, h)))"
proof (cases "altura it = 0")
  case True
  from assms have "empilhavel it" unfolding item_passa_iff by blast
  with True show ?thesis by simp
next
  case False
  from assms have e: "empilhavel it" unfolding item_passa_iff by blast
  from assms e False have c: "min \<lfloor>h / altura it\<rfloor> (max_emp it) < 1"
    unfolding item_passa_iff by blast
  show ?thesis
    unfolding volume_loop.simps using e False c by (simp only: if_True if_False Let_def)
qed

lemma volume_loop_passa:
  "\<forall>it\<in>set itens. item_passa h it \<Longrightarrow>
   volume_loop itens h t m d =
     Inr (Inr (t + sum_list (map (det_volume \<circ> detalhe_item h) itens),
               foldl max m (map (det_altura \<circ> detalhe_item h) itens),
               d @ map (detalhe_item h) itens))"
  by (induction itens arbitrary: t m d)
    (simp_all add: volume_loop_passo add.assoc del: volume_loop.simps(2))

lemma volume_loop_para:
  "\<forall>x\<in>set pre. item_passa h x \<Longrightarrow> \<not> item_passa h it \<Longrightarrow>
   volume_loop (pre @ it # post) h t m d =
     (if altura it = 0 then Inl ZeroDivisionError
      else Inr (Inl (nome it, altura it, h)))"
  by (induction pre arbitrary: t m d)
    (simp_all add: volume_loop_passo volume_loop_nao_passa del: volume_loop.simps(2))

lemma volume_loop_Inr_passa:
  "volume_loop itens h t m d = Inr (Inr r) \<Longrightarrow> \<forall>it\<in>set itens. item_passa h it"
proof (induction itens arbitrary: t m d)
  case Nil
  then show ?case by simp
next
  case (Cons it itens)
  show ?case
  proof (cases "item_passa h it")
    case True
    with Cons show ?thesis
      by (simp add: volume_loop_passo del: volume_loop.simps)
  next
    case False
    with Cons.prems show ?thesis
      by (simp add: volume_loop_nao_passa del: volume_loop.simps split: if_splits)
  qed
qed

lemma foldl_max_Max:
  "foldl max (m::real) xs = Max (insert m (set xs))"
proof (induction xs arbitrary: m)
  case Nil
  then show ?case by simp
next
  case (Cons x xs)
  have "Max (insert (max m x) (set xs)) = Max (insert m (insert x (set xs)))"
    by (cases "set xs = {}") (simp_all add: max.assoc)
  with Cons show ?case by simp
qed

subsection \<open>\<^verbatim>\<open>volume_para_box\<close> as a whole\<close>

lemma volume_para_box_passa:
  assumes "\<forall>it\<in>set itens. item_passa h it"
  shows "volume_para_box itens h f =
     Inr (Volume (sum_list (map (det_volume \<circ> detalhe_item h) itens) * (1 + f))
            (foldl max 0 (map (det_altura \<circ> detalhe_item h) itens))
            (map (detalhe_item h) itens))"
  unfolding volume_para_box_def volume_loop_passa [OF assms] by simp

lemma volume_para_box_para:
  assumes "\<forall>x\<in>set pre. item_passa h x" and "\<not> item_passa h it"
  shows "volume_para_box (pre @ it # post) h f =
     (if altura it = 0 then Inl ZeroDivisionError
      else Inr (NaoCabe (nome it) (altura it) h))"
  unfolding volume_para_box_def volume_loop_para [OF assms] by simp

lemma volume_para_box_Volume_passa:
  assumes "volume_para_box itens h f = Inr (Volume v a ds)"
  shows "\<forall>it\<in>set itens. item_passa h it"
proof -
  from assms obtain r where "volume_loop itens h 0 0 [] = Inr (Inr r)"
    unfolding volume_para_box_def by (auto split: sum.splits prod.splits)
  then show ?thesis by (rule volume_loop_Inr_passa)
qed

lemma volume_para_box_casos:
  "(\<forall>it\<in>set itens. item_passa h it) \<or>
   (\<exists>pre it post. itens = pre @ it # post \<and> (\<forall>x\<in>set pre. item_passa h x) \<and> \<not> item_passa h it)"
proof (cases "\<exists>x\<in>set itens. \<not> item_passa h x")
  case True
  from split_list_first_prop [OF True] show ?thesis by blast
next
  case False
  then show ?thesis by blast
qed

lemma volume_para_box_sem_erro:
  assumes "sem_altura_zero itens"
  shows "volume_para_box itens h f \<noteq> Inl e"
proof (cases "\<forall>it\<in>set itens. item_passa h it")
  case True
  then show ?thesis by (simp add: volume_para_box_passa)
next
  case False
  then obtain pre it post where i: "itens = pre @ it # post"
    and p: "\<forall>x\<in>set pre. item_passa h x" and n: "\<not> item_passa h it"
    using volume_para_box_casos by blast
  from n have "empilhavel it" unfolding item_passa_iff by blast
  with assms i have "altura it \<noteq> 0" by (simp add: sem_altura_zero_def)
  then show ?thesis unfolding i volume_para_box_para [OF p n] by simp
qed

subsection \<open>The head of a stably sorted list\<close>

lemma find_filter_Cons: "filter P xs = y # ys \<Longrightarrow> find P xs = Some y"
  by (induction xs) (auto split: if_splits)

lemma hd_sort_key:
  fixes f :: "'a \<Rightarrow> 'k::linorder"
  assumes "xs \<noteq> []"
  shows "hd (sort_key f xs) \<in> set xs"
    and "\<forall>x\<in>set xs. f (hd (sort_key f xs)) \<le> f x"
    and "find (\<lambda>x. f x = f (hd (sort_key f xs))) xs = Some (hd (sort_key f xs))"
proof -
  let ?s = "sort_key f xs" and ?m = "hd (sort_key f xs)"
  have "length ?s = length xs" by simp
  with assms have ne: "?s \<noteq> []" by (cases ?s) simp_all
  then obtain ys where s: "?s = ?m # ys" by (cases ?s) simp_all
  from ne have "?m \<in> set ?s" by (rule hd_in_set)
  then show "?m \<in> set xs" by simp
  have "sorted (map f ?s)" by (rule sorted_sort_key)
  then have "sorted (map f (?m # ys))" by (simp flip: s)
  then have "\<forall>x\<in>set (?m # ys). f ?m \<le> f x" by auto
  then have "\<forall>x\<in>set ?s. f ?m \<le> f x" by (simp flip: s)
  then show "\<forall>x\<in>set xs. f ?m \<le> f x" by simp
  have "filter (\<lambda>y. f y = f ?m) xs = filter (\<lambda>y. f y = f ?m) ?s"
    by (simp add: sort_key_stable)
  also have "\<dots> = filter (\<lambda>y. f y = f ?m) (?m # ys)" by (simp flip: s)
  also have "\<dots> = ?m # filter (\<lambda>y. f y = f ?m) ys" by simp
  finally have "filter (\<lambda>y. f y = f ?m) xs = ?m # filter (\<lambda>y. f y = f ?m) ys" .
  then show "find (\<lambda>x. f x = f ?m) xs = Some ?m"
    by (rule find_filter_Cons)
qed

subsection \<open>The loop of \<^verbatim>\<open>escolher_box_por_altura\<close>\<close>

lemma candidatos_loop_passo:
  "candidatos_loop itens (b # boxes) acc =
     (case volume_para_box itens (Altura b) folga_padrao of
        Inl e \<Rightarrow> Inl e
      | Inr r \<Rightarrow>
          candidatos_loop itens boxes
            (acc @ (case candidato_de itens b of None \<Rightarrow> [] | Some c \<Rightarrow> [c])))"
proof (cases "volume_para_box itens (Altura b) folga_padrao")
  case (Inl e)
  then show ?thesis by simp
next
  case (Inr r)
  then show ?thesis by (cases r) (simp_all add: candidato_de_def)
qed

lemma map_filter_Cons:
  "List.map_filter g (x # xs) = (case g x of None \<Rightarrow> [] | Some y \<Rightarrow> [y]) @ List.map_filter g xs"
  by (simp split: option.splits)

lemma candidatos_loop_Inr:
  "candidatos_loop itens boxes acc = Inr cs \<Longrightarrow>
   cs = acc @ List.map_filter (candidato_de itens) boxes"
proof (induction boxes arbitrary: acc)
  case Nil
  then show ?case by simp
next
  case (Cons b boxes)
  from Cons.prems obtain r where "volume_para_box itens (Altura b) folga_padrao = Inr r"
    unfolding candidatos_loop_passo
    by (cases "volume_para_box itens (Altura b) folga_padrao") simp_all
  with Cons.prems have "candidatos_loop itens boxes
      (acc @ (case candidato_de itens b of None \<Rightarrow> [] | Some c \<Rightarrow> [c])) = Inr cs"
    unfolding candidatos_loop_passo by simp
  from Cons.IH [OF this] show ?case unfolding map_filter_Cons by simp
qed

lemma candidatos_loop_map_filter:
  assumes "sem_altura_zero itens"
  shows "candidatos_loop itens boxes acc = Inr (acc @ List.map_filter (candidato_de itens) boxes)"
proof (induction boxes arbitrary: acc)
  case Nil
  then show ?case by simp
next
  case (Cons b boxes)
  from volume_para_box_sem_erro [OF assms] obtain r
    where "volume_para_box itens (Altura b) folga_padrao = Inr r"
    by (cases "volume_para_box itens (Altura b) folga_padrao") auto
  with Cons.IH show ?case unfolding candidatos_loop_passo map_filter_Cons by simp
qed


lemma candidato_de_Some:
  "candidato_de itens b = Some c \<longleftrightarrow>
     (\<exists>vol alt_uso detalhes. c = (vol, alt_uso, detalhes, b) \<and>
        volume_para_box itens (Altura b) folga_padrao = Inr (Volume vol alt_uso detalhes) \<and>
        vol \<le> Metros_Cubicos b)"
proof (cases "volume_para_box itens (Altura b) folga_padrao")
  case (Inl e)
  then show ?thesis by (simp add: candidato_de_def)
next
  case (Inr r)
  then show ?thesis by (cases r) (auto simp add: candidato_de_def)
qed

lemma elegivel_candidato: "elegivel itens b \<longleftrightarrow> candidato_de itens b \<noteq> None"
proof (cases "volume_para_box itens (Altura b) folga_padrao")
  case (Inl e)
  then show ?thesis by (simp add: candidato_de_def elegivel_def volume_de_def)
next
  case (Inr r)
  then show ?thesis by (cases r) (simp_all add: candidato_de_def elegivel_def volume_de_def)
qed

subsection \<open>The result of \<^verbatim>\<open>volume_para_box\<close> from its parts\<close>

lemma volume_para_box_Volume_eq:
  assumes "volume_para_box itens h f = Inr (Volume v a ds)"
  shows "\<forall>it\<in>set itens. item_passa h it"
    and "v = sum_list (map (det_volume \<circ> detalhe_item h) itens) * (1 + f)"
    and "a = foldl max 0 (map (det_altura \<circ> detalhe_item h) itens)"
    and "ds = map (detalhe_item h) itens"
proof -
  show p: "\<forall>it\<in>set itens. item_passa h it"
    using assms by (rule volume_para_box_Volume_passa)
  from assms show "v = sum_list (map (det_volume \<circ> detalhe_item h) itens) * (1 + f)"
    and "a = foldl max 0 (map (det_altura \<circ> detalhe_item h) itens)"
    and "ds = map (detalhe_item h) itens"
    unfolding volume_para_box_passa [OF p] by simp_all
qed

lemma detalhe_item_empilha:
  assumes "empilhavel it"
  shows "detalhe_item h it =
     DetEmpilha (qtd it) (nome it)
       \<lceil>real_of_int (qtd it) / real_of_int (min \<lfloor>h / altura it\<rfloor> (max_emp it))\<rceil>
       (real_of_int \<lceil>real_of_int (qtd it) / real_of_int (min \<lfloor>h / altura it\<rfloor> (max_emp it))\<rceil> * m3 it)
       (min \<lfloor>h / altura it\<rfloor> (max_emp it))
       (real_of_int (min (min \<lfloor>h / altura it\<rfloor> (max_emp it)) (qtd it)) * altura it)"
  unfolding detalhe_item_def using assms by (simp only: if_True Let_def)

lemma detalhe_item_nao_empilha:
  assumes "\<not> empilhavel it"
  shows "detalhe_item h it =
     DetNaoEmpilha (qtd it) (nome it) (real_of_int (qtd it) * m3 it) (altura it)"
  unfolding detalhe_item_def using assms by (simp only: if_False)

lemma volume_para_box_snoc:
  assumes pre: "volume_para_box pre h f = Inr (Volume t0 m0 d0)"
    and it: "item_passa h it"
  shows "volume_para_box (pre @ [it]) h f =
     Inr (Volume ((sum_list (map det_volume d0) + det_volume (detalhe_item h it)) * (1 + f))
            (max m0 (det_altura (detalhe_item h it))) (d0 @ [detalhe_item h it]))"
proof -
  note e = volume_para_box_Volume_eq [OF pre]
  from e(1) it have "\<forall>x\<in>set (pre @ [it]). item_passa h x" by simp
  from volume_para_box_passa [OF this] show ?thesis
    by (simp add: e(3,4) comp_def)
qed

lemma volume_para_box_nth:
  assumes "volume_para_box (pre @ it # post) h f = Inr (Volume v a ds)"
  shows "ds ! length pre = detalhe_item h it"
  unfolding volume_para_box_Volume_eq(4) [OF assms] by (simp add: nth_append)

lemma volume_para_box_pico:
  assumes "volume_para_box itens h f = Inr (Volume v a ds)"
  shows "a = Max (insert 0 (det_altura ` set ds))"
proof -
  note e = volume_para_box_Volume_eq [OF assms]
  have "a = foldl max 0 (map det_altura ds)" unfolding e(3) e(4) by simp
  then show ?thesis unfolding foldl_max_Max by simp
qed

subsection \<open>Where a refusal or an exception comes from\<close>



subsection \<open>The candidates and the choice\<close>

lemma set_map_filter: "set (List.map_filter g xs) = {y. \<exists>x\<in>set xs. g x = Some y}"
  by (induction xs) (auto split: option.splits)

lemma find_map_filter:
  "find Q (List.map_filter g xs) = Some c \<Longrightarrow>
   \<exists>x. find (\<lambda>x. \<exists>c'. g x = Some c' \<and> Q c') xs = Some x \<and> g x = Some c"
proof (induction xs)
  case Nil
  then show ?case by simp
next
  case (Cons x xs)
  show ?case
  proof (cases "g x")
    case None
    with Cons show ?thesis by simp
  next
    case (Some c')
    with Cons show ?thesis by (cases "Q c'") simp_all
  qed
qed

lemma candidato_chave:
  "(\<exists>c'. candidato_de itens b = Some c' \<and> chave c' = (k1, k2)) \<longleftrightarrow>
   (elegivel itens b \<and> Metros_Cubicos b = k1 \<and> volume_de itens b = Some k2)"
proof (cases "volume_para_box itens (Altura b) folga_padrao")
  case (Inl e)
  then show ?thesis by (simp add: candidato_de_def elegivel_def volume_de_def)
next
  case (Inr r)
  then show ?thesis
    by (cases r) (auto simp add: candidato_de_def elegivel_def volume_de_def chave_def)
qed

lemma escolher_def2:
  assumes "candidatos_loop itens boxes [] = Inr cs"
  shows "escolher_box_por_altura itens boxes =
     (if cs = [] then Inr (Nenhum motivo_nenhum_box)
      else (case hd (sort_key chave cs) of (vol, alt_uso, detalhes, b) \<Rightarrow>
              Inr (Escolhido b vol alt_uso detalhes)))"
proof (cases "cs = []")
  case True
  with assms show ?thesis by (simp add: escolher_box_por_altura_def)
next
  case False
  have "length (sort_key chave cs) = length cs" by simp
  with False obtain m ms where s: "sort_key chave cs = m # ms"
    by (cases "sort_key chave cs") simp_all
  with assms False show ?thesis by (simp add: escolher_box_por_altura_def)
qed

lemma escolher_melhor:
  assumes cl: "candidatos_loop itens boxes [] = Inr cs" and ne: "cs \<noteq> []"
  shows "\<exists>b vol alt_uso detalhes.
     escolher_box_por_altura itens boxes = Inr (Escolhido b vol alt_uso detalhes) \<and>
     b \<in> set boxes \<and>
     volume_para_box itens (Altura b) folga_padrao = Inr (Volume vol alt_uso detalhes) \<and>
     vol \<le> Metros_Cubicos b \<and>
     (\<forall>b'\<in>set boxes. \<forall>vol'. elegivel itens b' \<and> volume_de itens b' = Some vol' \<longrightarrow>
        (Metros_Cubicos b, vol) \<le> (Metros_Cubicos b', vol')) \<and>
     find (\<lambda>b'. elegivel itens b' \<and> Metros_Cubicos b' = Metros_Cubicos b \<and>
                 volume_de itens b' = Some vol) boxes = Some b"
proof -
  let ?m = "hd (sort_key chave cs)"
  obtain vol alt_uso detalhes b where m: "?m = (vol, alt_uso, detalhes, b)"
    by (cases ?m) auto
  have cs: "cs = List.map_filter (candidato_de itens) boxes"
    using candidatos_loop_Inr [OF cl] by simp
  note h = hd_sort_key [OF ne, of chave]
  from h(1) obtain b0 where b0: "b0 \<in> set boxes" and c0: "candidato_de itens b0 = Some ?m"
    unfolding cs set_map_filter by blast
  from c0 have bb: "b0 = b"
    and vp: "volume_para_box itens (Altura b) folga_padrao = Inr (Volume vol alt_uso detalhes)"
    and le: "vol \<le> Metros_Cubicos b"
    unfolding m candidato_de_Some by auto
  have km: "chave ?m = (Metros_Cubicos b, vol)" unfolding m by (simp add: chave_def)
  have 1: "escolher_box_por_altura itens boxes = Inr (Escolhido b vol alt_uso detalhes)"
    unfolding escolher_def2 [OF cl] using ne m by simp
  have 2: "(Metros_Cubicos b, vol) \<le> (Metros_Cubicos b', vol')"
    if "b' \<in> set boxes" and "elegivel itens b'" and "volume_de itens b' = Some vol'" for b' vol'
  proof -
    from that(2,3) obtain c' where c': "candidato_de itens b' = Some c'"
      and k: "chave c' = (Metros_Cubicos b', vol')"
      using candidato_chave [of itens b' "Metros_Cubicos b'" vol'] by blast
    from that(1) c' have "c' \<in> set cs" unfolding cs set_map_filter by blast
    with h(2) have "chave ?m \<le> chave c'" by blast
    then show ?thesis unfolding km k .
  qed
  from h(3) have "find (\<lambda>c. chave c = (Metros_Cubicos b, vol)) cs = Some ?m"
    unfolding km .
  then obtain x where
    f: "find (\<lambda>x. \<exists>c'. candidato_de itens x = Some c' \<and> chave c' = (Metros_Cubicos b, vol)) boxes = Some x"
    and cx: "candidato_de itens x = Some ?m"
    using find_map_filter [of "\<lambda>c. chave c = (Metros_Cubicos b, vol)" "candidato_de itens" boxes ?m]
    unfolding cs [symmetric] by blast
  from cx have "x = b" unfolding m candidato_de_Some by auto
  with f have 3: "find (\<lambda>b'. elegivel itens b' \<and> Metros_Cubicos b' = Metros_Cubicos b \<and>
                 volume_de itens b' = Some vol) boxes = Some b"
    unfolding candidato_chave by simp
  from 1 b0 bb vp le 2 3 show ?thesis by blast
qed

lemma map_filter_Nil: "List.map_filter g xs = [] \<longleftrightarrow> (\<forall>x\<in>set xs. g x = None)"
  by (induction xs) (auto split: option.splits)

lemma elegivel_map_filter:
  "List.map_filter (candidato_de itens) boxes = [] \<longleftrightarrow> (\<forall>b\<in>set boxes. \<not> elegivel itens b)"
  unfolding elegivel_candidato map_filter_Nil by (simp only: not_not)


lemma escolher_casos:
  "(\<exists>e. candidatos_loop itens boxes [] = Inl e \<and> escolher_box_por_altura itens boxes = Inl e) \<or>
   (\<exists>cs. candidatos_loop itens boxes [] = Inr cs)"
  by (cases "candidatos_loop itens boxes []") (simp_all add: escolher_box_por_altura_def)


subsection \<open>The catalogue and \<^verbatim>\<open>calcular_itens\<close>\<close>

lemma catalogo_nomes: "map fst catalogo = [''sofa'', ''geladeira'', ''mesa'', ''cadeira de jantar'', ''caixa pequena'', ''caixa media'', ''caixa grande'', ''fogao'', ''cama box'', ''colchao de casal'', ''colchao de solteiro'', ''maquina de lavar'', ''mesa de jantar'', ''rack'', ''sofa 2 lugares'', ''sofa 3 lugares'', ''tv'', ''escrivaninha'', ''cadeira de escritorio'', ''poltrona'']"
  by (simp add: catalogo_def)

lemma itens_ui_slugs: "map ui_slug itens_ui = [''cadeira_de_escritorio'', ''cadeira_de_jantar'', ''caixa_grande'', ''caixa_media'', ''caixa_pequena'', ''cama_box'', ''colchao_de_casal'', ''colchao_de_solteiro'', ''escrivaninha'', ''fogao'', ''geladeira'', ''maquina_de_lavar'', ''mesa'', ''mesa_de_jantar'', ''poltrona'', ''rack'', ''sofa'', ''sofa_2_lugares'', ''sofa_3_lugares'', ''tv'']"
  by code_simp

lemma itens_ui_consistente:
  "list_all (\<lambda>u. slug_to_nome (ui_slug u) = Some (ui_nome u)) itens_ui"
  by code_simp

lemma foldl_upd_Some:
  "foldl (\<lambda>m k. m(f k \<mapsto> k)) m0 ks s = Some n \<Longrightarrow> (n \<in> set ks \<and> f n = s) \<or> m0 s = Some n"
proof (induction ks arbitrary: m0)
  case Nil
  then show ?case by simp
next
  case (Cons k ks)
  from Cons.prems have "foldl (\<lambda>m k. m(f k \<mapsto> k)) (m0(f k \<mapsto> k)) ks s = Some n"
    by (simp only: foldl_Cons)
  from Cons.IH [OF this] show ?case
    by (auto split: if_splits)
qed

lemma slug_to_nome_Some:
  assumes "slug_to_nome slug = Some n"
  shows "n \<in> set (map fst catalogo)" and "slugify n = slug"
  using foldl_upd_Some [of slugify Map.empty "map fst catalogo" slug n] assms
  unfolding slug_to_nome_def by simp_all

lemma catalogo_nome_nao_vazio: "n \<in> set (map fst catalogo) \<Longrightarrow> n \<noteq> []"
  unfolding catalogo_nomes by auto

lemma catalogo_map_of: "n \<in> set (map fst catalogo) \<Longrightarrow> \<exists>mt. map_of catalogo n = Some mt"
  by (cases "map_of catalogo n") (simp_all add: map_of_eq_None_iff)

lemma item_da_entrada_Some:
  assumes "0 < q" and "slug_to_nome slug = Some n"
  shows "\<exists>mt. map_of catalogo n = Some mt \<and>
     item_da_entrada (slug, q) =
       Some \<lparr>nome = n, qtd = q, m3 = meta_m3 mt, empilhavel = get_empilhavel mt,
             max_emp = get_max_emp mt, altura = get_altura mt\<rparr>"
proof -
  note k = slug_to_nome_Some(1) [OF assms(2)]
  from catalogo_map_of [OF k] obtain mt where mt: "map_of catalogo n = Some mt" ..
  from catalogo_nome_nao_vazio [OF k] assms mt show ?thesis
    by (simp add: item_da_entrada_def)
qed

lemma item_da_entrada_None:
  "q \<le> 0 \<or> slug_to_nome slug = None \<Longrightarrow> item_da_entrada (slug, q) = None"
  by (auto simp add: item_da_entrada_def)

lemma calcular_loop_passo:
  "calcular_loop ((slug, q) # rest) acc =
     calcular_loop rest (case item_da_entrada (slug, q) of None \<Rightarrow> acc | Some it \<Rightarrow> acc @ [it])"
proof (cases "0 < q")
  case False
  then show ?thesis by (simp add: item_da_entrada_def)
next
  case True
  show ?thesis
  proof (cases "slug_to_nome slug")
    case None
    with True show ?thesis by (simp add: item_da_entrada_def)
  next
    case (Some n)
    note k = slug_to_nome_Some(1) [OF Some]
    from item_da_entrada_Some [OF True Some] obtain mt where
      mt: "map_of catalogo n = Some mt" and i: "item_da_entrada (slug, q) =
       Some \<lparr>nome = n, qtd = q, m3 = meta_m3 mt, empilhavel = get_empilhavel mt,
             max_emp = get_max_emp mt, altura = get_altura mt\<rparr>" by blast
    from True Some mt catalogo_nome_nao_vazio [OF k] show ?thesis
      unfolding i by simp
  qed
qed

lemma calcular_loop_eq:
  "calcular_loop qs acc = Inr (acc @ List.map_filter item_da_entrada qs)"
proof (induction qs arbitrary: acc)
  case Nil
  then show ?case by simp
next
  case (Cons e qs)
  obtain slug q where e: "e = (slug, q)" by (cases e)
  show ?case unfolding e calcular_loop_passo Cons.IH
    by (cases "item_da_entrada (slug, q)") simp_all
qed

lemma calcular_itens_eq: "calcular_itens qs = Inr (List.map_filter item_da_entrada qs)"
  by (simp add: calcular_itens_def calcular_loop_eq)

subsection \<open>The request built by the route\<close>

lemma dict_set_novo: "k \<notin> fst ` set kvs \<Longrightarrow> dict_set kvs k v = kvs @ [(k, v)]"
  by (induction kvs) auto

lemma ler_loop_eq:
  "distinct (map fst acc @ map ui_slug us) \<Longrightarrow>
   ler_loop us form acc =
     acc @ map (\<lambda>u. (ui_slug u, ler_campo form (''qty_'' @ ui_slug u))) us"
proof (induction us arbitrary: acc)
  case Nil
  then show ?case by simp
next
  case (Cons u us)
  from Cons.prems have n: "ui_slug u \<notin> fst ` set acc" by auto
  let ?acc = "acc @ [(ui_slug u, ler_campo form (''qty_'' @ ui_slug u))]"
  from Cons.prems have "distinct (map fst ?acc @ map ui_slug us)" by auto
  from Cons.IH [OF this] show ?case by (simp add: dict_set_novo [OF n])
qed

lemma itens_ui_distinct: "distinct (map ui_slug itens_ui)"
  unfolding itens_ui_slugs by simp

lemma ler_quantidades_eq:
  "ler_quantidades form =
     map (\<lambda>u. (ui_slug u, ler_campo form (''qty_'' @ ui_slug u))) itens_ui"
  unfolding ler_quantidades_def using ler_loop_eq [of "[]" itens_ui form] itens_ui_distinct
  by simp

lemma itens_ui_sorted: "sorted (map ui_nome itens_ui)"
  unfolding itens_ui_def by (rule sorted_sort_key)

lemma map_map_filter: "map h (List.map_filter g xs) = List.map_filter (map_option h \<circ> g) xs"
  by (induction xs) (auto split: option.splits)

lemma map_filter_cong_set:
  "(\<And>x. x \<in> set xs \<Longrightarrow> g x = g' x) \<Longrightarrow> List.map_filter g xs = List.map_filter g' xs"
  by (induction xs) (auto split: option.splits)

lemma map_filter_if:
  "List.map_filter (\<lambda>x. if P x then Some (h x) else None) xs = map h (filter P xs)"
  by (induction xs) auto

lemma item_da_entrada_par:
  "map_option (\<lambda>it. (nome it, qtd it)) (item_da_entrada (slug, q)) =
     (if 0 < q then map_option (\<lambda>n. (n, q)) (slug_to_nome slug) else None)"
proof (cases "0 < q")
  case False
  then show ?thesis using item_da_entrada_None [of q slug] by simp
next
  case True
  show ?thesis
  proof (cases "slug_to_nome slug")
    case None
    then show ?thesis using item_da_entrada_None [of q slug] True by simp
  next
    case (Some n)
    from item_da_entrada_Some [OF True Some] True Some show ?thesis by auto
  qed
qed

lemma item_da_entrada_nome:
  "map_option nome (item_da_entrada (slug, q)) = (if 0 < q then slug_to_nome slug else None)"
proof -
  have "map_option nome (item_da_entrada (slug, q)) =
      map_option fst (map_option (\<lambda>it. (nome it, qtd it)) (item_da_entrada (slug, q)))"
    by (simp add: option.map_comp comp_def)
  also have "\<dots> = (if 0 < q then slug_to_nome slug else None)"
    unfolding item_da_entrada_par by (simp add: option.map_comp comp_def option.map_ident)
  finally show ?thesis .
qed

lemma item_da_entrada_dados:
  assumes "item_da_entrada e = Some it"
  shows "0 < qtd it \<and>
     (\<exists>mt. map_of catalogo (nome it) = Some mt \<and> m3 it = meta_m3 mt \<and>
        empilhavel it = get_empilhavel mt \<and> max_emp it = get_max_emp mt \<and>
        altura it = get_altura mt)"
proof -
  obtain slug q where e: "e = (slug, q)" by (cases e)
  from assms have q: "0 < q" unfolding e using item_da_entrada_None [of q slug] by (cases "0 < q") auto
  from assms obtain n where n: "slug_to_nome slug = Some n"
    unfolding e using item_da_entrada_None [of q slug] by (cases "slug_to_nome slug") auto
  from item_da_entrada_Some [OF q n] assms q show ?thesis unfolding e by auto
qed

lemma calcular_itens_pedido:
  "calcular_itens (ler_quantidades form) =
     Inr (List.map_filter item_da_entrada
            (map (\<lambda>u. (ui_slug u, ler_campo form (''qty_'' @ ui_slug u))) itens_ui))"
  unfolding calcular_itens_eq ler_quantidades_eq ..

lemma map_filter_map: "List.map_filter g (map h xs) = List.map_filter (g \<circ> h) xs"
  by (induction xs) (auto split: option.splits)

lemma pedido_pares:
  "map (\<lambda>it. (nome it, qtd it))
     (List.map_filter item_da_entrada
        (map (\<lambda>u. (ui_slug u, ler_campo form (''qty_'' @ ui_slug u))) itens_ui)) =
   map (\<lambda>u. (ui_nome u, ler_campo form (''qty_'' @ ui_slug u)))
     (filter (\<lambda>u. 0 < ler_campo form (''qty_'' @ ui_slug u)) itens_ui)"
proof -
  let ?q = "\<lambda>u. ler_campo form (''qty_'' @ ui_slug u)"
  have "map (\<lambda>it. (nome it, qtd it))
     (List.map_filter item_da_entrada (map (\<lambda>u. (ui_slug u, ?q u)) itens_ui)) =
     List.map_filter (\<lambda>u. map_option (\<lambda>it. (nome it, qtd it)) (item_da_entrada (ui_slug u, ?q u))) itens_ui"
    by (simp add: map_map_filter map_filter_map comp_def)
  also have "\<dots> = List.map_filter (\<lambda>u. if 0 < ?q u then Some (ui_nome u, ?q u) else None) itens_ui"
  proof (rule map_filter_cong_set)
    fix u assume u: "u \<in> set itens_ui"
    from u itens_ui_consistente have s: "slug_to_nome (ui_slug u) = Some (ui_nome u)"
      by (simp add: list_all_iff)
    show "map_option (\<lambda>it. (nome it, qtd it)) (item_da_entrada (ui_slug u, ?q u)) =
        (if 0 < ?q u then Some (ui_nome u, ?q u) else None)"
      unfolding item_da_entrada_par s by simp
  qed
  also have "\<dots> = map (\<lambda>u. (ui_nome u, ?q u)) (filter (\<lambda>u. 0 < ?q u) itens_ui)"
    by (rule map_filter_if)
  finally show ?thesis .
qed

section \<open>The claims\<close>

subsection \<open>The estimate for one box\<close>

text \<open>
  Claim C2. Let a stackable item with a height other than zero (so every stackable
  NormalizedItem) stand after items \<open>pre\<close> on which the estimate for the height \<open>h\<close>
  succeeds. The estimator computes \<open>camadas = min \<lfloor>h / altura\<rfloor> max_emp\<close>. If it is less
  than 1, the estimate of any list that continues with the item is the refusal that names
  the item, its height and the height of the box. Otherwise the item adds
  \<open>\<lceil>qtd / camadas\<rceil> * m3\<close> to the sum of volumes, enters the peak height with
  \<open>min camadas qtd * altura\<close>, and its line of the breakdown, at the item's position in
  any longer list, reports exactly these values.
\<close>

theorem estimador_item_empilhavel:
  assumes emp: "empilhavel it" and alt: "altura it \<noteq> 0"
    and pre: "volume_para_box pre h folga = Inr (Volume t0 m0 d0)"
  shows "let camadas = min \<lfloor>h / altura it\<rfloor> (max_emp it);
             pilhas = \<lceil>real_of_int (qtd it) / real_of_int camadas\<rceil>;
             v_item = real_of_int pilhas * m3 it;
             altura_pilha = real_of_int (min camadas (qtd it)) * altura it;
             linha = DetEmpilha (qtd it) (nome it) pilhas v_item camadas altura_pilha
         in if camadas < 1
            then volume_para_box (pre @ it # post) h folga = Inr (NaoCabe (nome it) (altura it) h)
            else volume_para_box (pre @ [it]) h folga =
                   Inr (Volume ((sum_list (map det_volume d0) + v_item) * (1 + folga))
                          (max m0 altura_pilha) (d0 @ [linha])) \<and>
                 (\<forall>total' mx dets.
                    volume_para_box (pre @ it # post) h folga = Inr (Volume total' mx dets) \<longrightarrow>
                    dets ! length pre = linha)"
proof -
  define c where "c = min \<lfloor>h / altura it\<rfloor> (max_emp it)"
  note e = volume_para_box_Volume_eq [OF pre]
  note d = detalhe_item_empilha [OF emp, of h, folded c_def]
  show ?thesis
  proof (cases "c < 1")
    case True
    with emp have n: "\<not> item_passa h it" unfolding item_passa_iff c_def by blast
    from volume_para_box_para [OF e(1) n, of post folga] alt
    have "volume_para_box (pre @ it # post) h folga = Inr (NaoCabe (nome it) (altura it) h)"
      by simp
    with True show ?thesis unfolding Let_def c_def [symmetric] by (simp only: if_True)
  next
    case False
    with emp alt have p: "item_passa h it" unfolding item_passa_iff c_def by blast
    have 1: "volume_para_box (pre @ [it]) h folga =
        Inr (Volume ((sum_list (map det_volume d0) +
                      real_of_int \<lceil>real_of_int (qtd it) / real_of_int c\<rceil> * m3 it) * (1 + folga))
               (max m0 (real_of_int (min c (qtd it)) * altura it))
               (d0 @ [DetEmpilha (qtd it) (nome it) \<lceil>real_of_int (qtd it) / real_of_int c\<rceil>
                        (real_of_int \<lceil>real_of_int (qtd it) / real_of_int c\<rceil> * m3 it) c
                        (real_of_int (min c (qtd it)) * altura it)]))"
      using volume_para_box_snoc [OF pre p] unfolding d by simp
    have 2: "\<forall>total' mx dets.
        volume_para_box (pre @ it # post) h folga = Inr (Volume total' mx dets) \<longrightarrow>
        dets ! length pre =
          DetEmpilha (qtd it) (nome it) \<lceil>real_of_int (qtd it) / real_of_int c\<rceil>
            (real_of_int \<lceil>real_of_int (qtd it) / real_of_int c\<rceil> * m3 it) c
            (real_of_int (min c (qtd it)) * altura it)"
      using volume_para_box_nth [of pre it post h folga] unfolding d by blast
    from False 1 2 show ?thesis unfolding Let_def c_def [symmetric] by (simp only: if_False simp_thms)
  qed
qed

theorem estimador_item_empilhavel_witness:
  "empilhavel ex_caixa \<and> altura ex_caixa \<noteq> 0 \<and>
   volume_para_box [] 1 0.15 = Inr (Volume 0 0 []) \<and>
   volume_para_box [ex_caixa] 1 0.15 =
     Inr (Volume 0.575 0.8 [DetEmpilha 10 ''caixa pequena'' 5 0.5 2 0.8]) \<and>
   volume_para_box [ex_caixa] 0.3 0.15 = Inr (NaoCabe ''caixa pequena'' 0.40 0.3)"
proof -
  have e: "empilhavel ex_caixa" and a: "altura ex_caixa \<noteq> 0" by (simp_all add: ex_caixa_def)
  have p: "volume_para_box [] h 0.15 = Inr (Volume 0 0 [])" for h
    by (simp add: volume_para_box_def)
  from estimador_item_empilhavel [OF e a p [of 1], where post = "[]"]
    estimador_item_empilhavel [OF e a p [of "0.3"], where post = "[]"]
  show ?thesis using e a p [of 1] by (simp add: Let_def ex_caixa_def)
qed

text \<open>
  Claim C3. A non-stackable item with a non-negative height (so every non-stackable
  NormalizedItem), after items \<open>pre\<close> on which the estimate succeeds, adds \<open>qtd * m3\<close> to
  the sum of volumes and enters the peak height with its own height; its line of the
  breakdown holds these two values whatever the height of the box. The peak height of a
  list containing the item is the maximum, not the sum, of the heights the lines report.
\<close>

theorem estimador_item_nao_empilhavel:
  assumes nemp: "\<not> empilhavel it" and alt: "0 \<le> altura it"
    and pre: "volume_para_box pre h folga = Inr (Volume t0 m0 d0)"
  shows "volume_para_box (pre @ [it]) h folga =
           Inr (Volume ((sum_list (map det_volume d0) + real_of_int (qtd it) * m3 it) * (1 + folga))
                  (max m0 (altura it))
                  (d0 @ [DetNaoEmpilha (qtd it) (nome it) (real_of_int (qtd it) * m3 it) (altura it)])) \<and>
         (\<forall>total' mx dets.
            volume_para_box (pre @ it # post) h folga = Inr (Volume total' mx dets) \<longrightarrow>
            dets ! length pre =
              DetNaoEmpilha (qtd it) (nome it) (real_of_int (qtd it) * m3 it) (altura it) \<and>
            mx = Max (det_altura ` set dets))"
proof -
  note d = detalhe_item_nao_empilha [OF nemp]
  from nemp have p: "item_passa h it" unfolding item_passa_iff by blast
  have 1: "volume_para_box (pre @ [it]) h folga =
           Inr (Volume ((sum_list (map det_volume d0) + real_of_int (qtd it) * m3 it) * (1 + folga))
                  (max m0 (altura it))
                  (d0 @ [DetNaoEmpilha (qtd it) (nome it) (real_of_int (qtd it) * m3 it) (altura it)]))"
    using volume_para_box_snoc [OF pre p] unfolding d by simp
  have 2: "dets ! length pre =
              DetNaoEmpilha (qtd it) (nome it) (real_of_int (qtd it) * m3 it) (altura it) \<and>
            mx = Max (det_altura ` set dets)"
    if r: "volume_para_box (pre @ it # post) h folga = Inr (Volume total' mx dets)"
    for total' mx dets
  proof
    show l: "dets ! length pre =
        DetNaoEmpilha (qtd it) (nome it) (real_of_int (qtd it) * m3 it) (altura it)"
      using volume_para_box_nth [OF r] unfolding d .
    note e = volume_para_box_Volume_eq [OF r]
    have len: "length pre < length dets" unfolding e(4) by simp
    then have "dets ! length pre \<in> set dets" by (rule nth_mem)
    then have m: "altura it \<in> det_altura ` set dets" unfolding l by force
    have "mx = Max (insert 0 (det_altura ` set dets))"
      using volume_para_box_pico [OF r] .
    also have "\<dots> = max 0 (Max (det_altura ` set dets))"
      using m by (intro Max_insert) auto
    also have "\<dots> = Max (det_altura ` set dets)"
    proof -
      have "altura it \<le> Max (det_altura ` set dets)" using m by (intro Max_ge) auto
      with alt show ?thesis by simp
    qed
    finally show "mx = Max (det_altura ` set dets)" .
  qed
  from 1 2 show ?thesis by blast
qed

theorem estimador_item_nao_empilhavel_witness:
  "\<not> empilhavel ex_geladeira \<and> 0 \<le> altura ex_geladeira \<and>
   volume_para_box [] 2 0.15 = Inr (Volume 0 0 []) \<and>
   volume_para_box [ex_geladeira] 2 0.15 =
     Inr (Volume 2.76 1.80 [DetNaoEmpilha 2 ''geladeira'' 2.40 1.80])"
proof -
  have e: "\<not> empilhavel ex_geladeira" and a: "0 \<le> altura ex_geladeira"
    by (simp_all add: ex_geladeira_def)
  have p: "volume_para_box [] 2 0.15 = Inr (Volume 0 0 [])"
    by (simp add: volume_para_box_def)
  from estimador_item_nao_empilhavel [OF e a p, of "[]"]
  show ?thesis using e a p by (simp add: ex_geladeira_def)
qed

text \<open>
  Claim C6. Whenever the estimate succeeds, the total volume is the sum of the per-item
  contributions (one stack per \<open>camadas\<close> units of a stackable item, every unit of a
  non-stackable one), which is the sum of the volumes the lines of the breakdown report,
  times \<open>1 + folga\<close>. Success, the peak height and the breakdown do not depend on
  \<open>folga\<close>, so for the same items and height the total is linear in \<open>1 + folga\<close>.
  The default of \<open>folga\<close> is 0.15.
\<close>

theorem volume_total_com_folga:
  assumes r: "volume_para_box itens h folga = Inr (Volume total' mx dets)"
  shows "total' =
           (\<Sum>it\<leftarrow>itens.
              if empilhavel it
              then real_of_int
                     \<lceil>real_of_int (qtd it) /
                      real_of_int (min \<lfloor>h / altura it\<rfloor> (max_emp it))\<rceil> * m3 it
              else real_of_int (qtd it) * m3 it) * (1 + folga) \<and>
         total' = sum_list (map det_volume dets) * (1 + folga) \<and>
         length dets = length itens \<and>
         (\<forall>folga2. volume_para_box itens h folga2 =
                    Inr (Volume (sum_list (map det_volume dets) * (1 + folga2)) mx dets)) \<and>
         folga_padrao = 15 / 100"
proof -
  note e = volume_para_box_Volume_eq [OF r]
  have v: "det_volume (detalhe_item h it) =
      (if empilhavel it
       then real_of_int \<lceil>real_of_int (qtd it) /
              real_of_int (min \<lfloor>h / altura it\<rfloor> (max_emp it))\<rceil> * m3 it
       else real_of_int (qtd it) * m3 it)" for it
  proof (cases "empilhavel it")
    case True
    show ?thesis unfolding detalhe_item_empilha [OF True] using True by simp
  next
    case False
    show ?thesis unfolding detalhe_item_nao_empilha [OF False] using False by simp
  qed
  have s: "sum_list (map (det_volume \<circ> detalhe_item h) itens) = sum_list (map det_volume dets)"
    unfolding e(4) by (simp add: comp_def)
  have 1: "total' = sum_list (map det_volume dets) * (1 + folga)"
    unfolding e(2) s ..
  have 2: "sum_list (map det_volume dets) =
      (\<Sum>it\<leftarrow>itens.
              if empilhavel it
              then real_of_int
                     \<lceil>real_of_int (qtd it) /
                      real_of_int (min \<lfloor>h / altura it\<rfloor> (max_emp it))\<rceil> * m3 it
              else real_of_int (qtd it) * m3 it)"
    unfolding s [symmetric] comp_def v ..
  have 3: "length dets = length itens" unfolding e(4) by simp
  have 4: "volume_para_box itens h folga2 =
      Inr (Volume (sum_list (map det_volume dets) * (1 + folga2)) mx dets)" for folga2
    unfolding volume_para_box_passa [OF e(1)] s e(3) e(4) ..
  have 5: "folga_padrao = 15 / 100" by (simp add: folga_padrao_def)
  from 1 2 3 4 5 show ?thesis by simp
qed

theorem volume_total_com_folga_witness:
  "volume_para_box [ex_caixa, ex_geladeira] 1 0.15 =
     Inr (Volume 3.335 1.8
            [DetEmpilha 10 ''caixa pequena'' 5 0.5 2 0.8, DetNaoEmpilha 2 ''geladeira'' 2.4 1.8]) \<and>
   (3.335::real) = (0.5 + 2.4) * (1 + 0.15) \<and>
   volume_para_box [ex_caixa, ex_geladeira] 1 1 =
     Inr (Volume 5.8 1.8
            [DetEmpilha 10 ''caixa pequena'' 5 0.5 2 0.8, DetNaoEmpilha 2 ''geladeira'' 2.4 1.8])"
proof -
  let ?ds = "[DetEmpilha 10 ''caixa pequena'' 5 0.5 2 0.8, DetNaoEmpilha 2 ''geladeira'' 2.4 1.8]"
  have r: "volume_para_box [ex_caixa, ex_geladeira] 1 0.15 = Inr (Volume 3.335 1.8 ?ds)"
    by (simp add: volume_para_box_def Let_def ex_caixa_def ex_geladeira_def)
  from volume_total_com_folga [OF r] have
    "volume_para_box [ex_caixa, ex_geladeira] 1 1 =
       Inr (Volume (sum_list (map det_volume ?ds) * (1 + 1)) 1.8 ?ds)"
    by blast
  with r show ?thesis by simp
qed



subsection \<open>The choice of the box\<close>

text \<open>
  Claim C4. Whenever a box is chosen, it is one of the rows, the volume returned with it
  is the total the estimator computes for the height of that box with the default slack,
  and the capacity of the box is at least that volume.
\<close>

theorem escolhido_comporta_volume:
  assumes r: "escolher_box_por_altura itens boxes = Inr (Escolhido b vol alt_uso detalhes)"
  shows "b \<in> set boxes \<and>
         volume_para_box itens (Altura b) folga_padrao = Inr (Volume vol alt_uso detalhes) \<and>
         vol \<le> Metros_Cubicos b"
proof -
  from r escolher_casos [of itens boxes] obtain cs
    where cl: "candidatos_loop itens boxes [] = Inr cs" by auto
  from r have ne: "cs \<noteq> []" unfolding escolher_def2 [OF cl] by (auto split: if_splits)
  from escolher_melhor [OF cl ne] r show ?thesis by auto
qed

theorem escolhido_comporta_volume_witness:
  "escolher_box_por_altura [ex_geladeira] [ex_box ''A1'' 2.0 3.0] =
     Inr (Escolhido (ex_box ''A1'' 2.0 3.0) 2.76 1.80 [DetNaoEmpilha 2 ''geladeira'' 2.40 1.80]) \<and>
   volume_para_box [ex_geladeira] (Altura (ex_box ''A1'' 2.0 3.0)) folga_padrao =
     Inr (Volume 2.76 1.80 [DetNaoEmpilha 2 ''geladeira'' 2.40 1.80]) \<and>
   2.76 \<le> Metros_Cubicos (ex_box ''A1'' 2.0 3.0)"
proof -
  have r: "escolher_box_por_altura [ex_geladeira] [ex_box ''A1'' 2.0 3.0] =
      Inr (Escolhido (ex_box ''A1'' 2.0 3.0) 2.76 1.80 [DetNaoEmpilha 2 ''geladeira'' 2.40 1.80])"
    by (simp add: escolher_box_por_altura_def volume_para_box_def folga_padrao_def chave_def
          Let_def ex_geladeira_def ex_box_def)
  from escolhido_comporta_volume [OF r] r show ?thesis by blast
qed



text \<open>
  Claim C1. For such a list and rows of which at least one is eligible, a box is chosen;
  it is eligible, its capacity is the least among the eligible rows, its computed volume
  is the least among the eligible rows of that capacity, and it is the first row, in the
  order of the rows, that is eligible with that capacity and that volume.
\<close>

theorem escolhe_menor_capacidade:
  assumes z: "sem_altura_zero itens" and ex: "\<exists>b\<in>set boxes. elegivel itens b"
  shows "\<exists>b vol alt_uso detalhes.
     escolher_box_por_altura itens boxes = Inr (Escolhido b vol alt_uso detalhes) \<and>
     b \<in> set boxes \<and> elegivel itens b \<and> volume_de itens b = Some vol \<and>
     (\<forall>b'\<in>set boxes. elegivel itens b' \<longrightarrow> Metros_Cubicos b \<le> Metros_Cubicos b') \<and>
     (\<forall>b'\<in>set boxes. \<forall>vol'.
        elegivel itens b' \<and> Metros_Cubicos b' = Metros_Cubicos b \<and>
        volume_de itens b' = Some vol' \<longrightarrow> vol \<le> vol') \<and>
     find (\<lambda>b'. elegivel itens b' \<and> Metros_Cubicos b' = Metros_Cubicos b \<and>
                 volume_de itens b' = Some vol) boxes = Some b"
proof -
  let ?cs = "List.map_filter (candidato_de itens) boxes"
  have cl: "candidatos_loop itens boxes [] = Inr ?cs"
    using candidatos_loop_map_filter [OF z, of boxes "[]"] by simp
  from ex have ne: "?cs \<noteq> []" unfolding elegivel_map_filter by blast
  from escolher_melhor [OF cl ne] obtain b vol alt_uso detalhes where
    r: "escolher_box_por_altura itens boxes = Inr (Escolhido b vol alt_uso detalhes)"
    and b: "b \<in> set boxes"
    and v: "volume_para_box itens (Altura b) folga_padrao = Inr (Volume vol alt_uso detalhes)"
    and le: "vol \<le> Metros_Cubicos b"
    and mn: "\<forall>b'\<in>set boxes. \<forall>vol'. elegivel itens b' \<and> volume_de itens b' = Some vol' \<longrightarrow>
        (Metros_Cubicos b, vol) \<le> (Metros_Cubicos b', vol')"
    and f: "find (\<lambda>b'. elegivel itens b' \<and> Metros_Cubicos b' = Metros_Cubicos b \<and>
                 volume_de itens b' = Some vol) boxes = Some b"
    by blast
  from v have vd: "volume_de itens b = Some vol" by (simp add: volume_de_def)
  with le have el: "elegivel itens b" by (simp add: elegivel_def)
  have 1: "Metros_Cubicos b \<le> Metros_Cubicos b'" if "b' \<in> set boxes" "elegivel itens b'" for b'
  proof -
    from that(2) obtain vol' where "volume_de itens b' = Some vol'"
      by (auto simp add: elegivel_def split: option.splits)
    with mn that have "(Metros_Cubicos b, vol) \<le> (Metros_Cubicos b', vol')" by blast
    then show ?thesis by (auto simp add: less_eq_prod_def)
  qed
  have 2: "vol \<le> vol'"
    if "b' \<in> set boxes" "elegivel itens b' \<and> Metros_Cubicos b' = Metros_Cubicos b \<and>
        volume_de itens b' = Some vol'" for b' vol'
  proof -
    from mn that have "(Metros_Cubicos b, vol) \<le> (Metros_Cubicos b', vol')" by blast
    with that(2) show ?thesis by (auto simp add: less_eq_prod_def)
  qed
  from r b el vd 1 2 f show ?thesis by blast
qed

theorem escolhe_menor_capacidade_witness:
  "sem_altura_zero [ex_caixa] \<and>
   elegivel [ex_caixa] (ex_box ''B3'' 2.5 3) \<and>
   escolher_box_por_altura [ex_caixa]
     [ex_box ''B1'' 1.0 5, ex_box ''B2'' 1.0 3, ex_box ''B3'' 2.5 3, ex_box ''B4'' 2.5 3,
      ex_box ''B5'' 0.3 1] =
     Inr (Escolhido (ex_box ''B3'' 2.5 3) 0.23 2.4 [DetEmpilha 10 ''caixa pequena'' 2 0.2 6 2.4]) \<and>
   find (\<lambda>b'. elegivel [ex_caixa] b' \<and>
               Metros_Cubicos b' = Metros_Cubicos (ex_box ''B3'' 2.5 3) \<and>
               volume_de [ex_caixa] b' = Some 0.23)
     [ex_box ''B1'' 1.0 5, ex_box ''B2'' 1.0 3, ex_box ''B3'' 2.5 3, ex_box ''B4'' 2.5 3,
      ex_box ''B5'' 0.3 1] =
     Some (ex_box ''B3'' 2.5 3)"
proof -
  let ?b3 = "ex_box ''B3'' 2.5 3"
  let ?bs = "[ex_box ''B1'' 1.0 5, ex_box ''B2'' 1.0 3, ?b3, ex_box ''B4'' 2.5 3,
      ex_box ''B5'' 0.3 1]"
  have z: "sem_altura_zero [ex_caixa]" by (simp add: sem_altura_zero_def ex_caixa_def)
  have e3: "elegivel [ex_caixa] ?b3"
    by (simp add: elegivel_def volume_de_def volume_para_box_def folga_padrao_def Let_def
          ex_caixa_def ex_box_def)
  then have ex: "\<exists>b\<in>set ?bs. elegivel [ex_caixa] b" by simp
  have r: "escolher_box_por_altura [ex_caixa] ?bs =
      Inr (Escolhido ?b3 0.23 2.4 [DetEmpilha 10 ''caixa pequena'' 2 0.2 6 2.4])"
    by (simp add: escolher_box_por_altura_def volume_para_box_def folga_padrao_def chave_def
          Let_def less_eq_prod_def ex_caixa_def ex_box_def)
  from escolhe_menor_capacidade [OF z ex] obtain b vol alt_uso detalhes where
    eq: "escolher_box_por_altura [ex_caixa] ?bs = Inr (Escolhido b vol alt_uso detalhes)"
    and f: "find (\<lambda>b'. elegivel [ex_caixa] b' \<and> Metros_Cubicos b' = Metros_Cubicos b \<and>
                 volume_de [ex_caixa] b' = Some vol) ?bs = Some b"
    by blast
  from eq have bb: "b = ?b3" and vv: "vol = 0.23" unfolding r by simp_all
  from f have "find (\<lambda>b'. elegivel [ex_caixa] b' \<and> Metros_Cubicos b' = Metros_Cubicos ?b3 \<and>
                 volume_de [ex_caixa] b' = Some 0.23) ?bs = Some ?b3"
    unfolding bb vv .
  with z e3 r show ?thesis by (intro conjI)
qed

text \<open>
  Claim C9. For the empty list of items and at least one row, the rows having
  non-negative capacities (the data model gives every candidate a capacity above zero),
  the estimate is the volume 0 for every row, every row is eligible, and the box chosen
  is the first row of least capacity.
\<close>

theorem lista_vazia_escolhe_menor:
  assumes ne: "boxes \<noteq> []" and cap: "\<forall>b\<in>set boxes. 0 \<le> Metros_Cubicos b"
  shows "(\<forall>b\<in>set boxes. volume_para_box [] (Altura b) folga_padrao = Inr (Volume 0 0 [])) \<and>
         (\<forall>b\<in>set boxes. elegivel [] b) \<and>
         (\<exists>b. escolher_box_por_altura [] boxes = Inr (Escolhido b 0 0 []) \<and>
              b \<in> set boxes \<and>
              (\<forall>b'\<in>set boxes. Metros_Cubicos b \<le> Metros_Cubicos b') \<and>
              find (\<lambda>b'. Metros_Cubicos b' = Metros_Cubicos b) boxes = Some b)"
proof -
  have v: "volume_para_box [] h f = Inr (Volume 0 0 [])" for h f
    by (simp add: volume_para_box_def)
  have vd: "volume_de [] b = Some 0" for b by (simp add: volume_de_def v)
  from cap have el: "\<forall>b\<in>set boxes. elegivel [] b" by (simp add: elegivel_def vd)
  let ?cs = "List.map_filter (candidato_de []) boxes"
  have z: "sem_altura_zero []" by (simp add: sem_altura_zero_def)
  have cl: "candidatos_loop [] boxes [] = Inr ?cs"
    using candidatos_loop_map_filter [OF z, of boxes "[]"] by simp
  from ne el have "\<exists>b\<in>set boxes. elegivel [] b" by (cases boxes) auto
  then have cne: "?cs \<noteq> []" unfolding elegivel_map_filter by blast
  from escolher_melhor [OF cl cne] obtain b vol alt_uso detalhes where
    r: "escolher_box_por_altura [] boxes = Inr (Escolhido b vol alt_uso detalhes)"
    and b: "b \<in> set boxes"
    and vb: "volume_para_box [] (Altura b) folga_padrao = Inr (Volume vol alt_uso detalhes)"
    and mn: "\<forall>b'\<in>set boxes. \<forall>vol'. elegivel [] b' \<and> volume_de [] b' = Some vol' \<longrightarrow>
        (Metros_Cubicos b, vol) \<le> (Metros_Cubicos b', vol')"
    and f: "find (\<lambda>b'. elegivel [] b' \<and> Metros_Cubicos b' = Metros_Cubicos b \<and>
                 volume_de [] b' = Some vol) boxes = Some b"
    by blast
  from vb have e: "vol = 0" "alt_uso = 0" "detalhes = []" unfolding v by simp_all
  have 1: "Metros_Cubicos b \<le> Metros_Cubicos b'" if "b' \<in> set boxes" for b'
  proof -
    from mn that el vd have "(Metros_Cubicos b, vol) \<le> (Metros_Cubicos b', 0)" by blast
    then show ?thesis by (auto simp add: less_eq_prod_def)
  qed
  have "find (\<lambda>b'. elegivel [] b' \<and> Metros_Cubicos b' = Metros_Cubicos b \<and>
                 volume_de [] b' = Some vol) boxes =
        find (\<lambda>b'. Metros_Cubicos b' = Metros_Cubicos b) boxes"
    using el by (intro find_cong) (simp_all add: vd e)
  with f have 2: "find (\<lambda>b'. Metros_Cubicos b' = Metros_Cubicos b) boxes = Some b" by simp
  from v el r b 1 2 show ?thesis unfolding e by blast
qed

theorem lista_vazia_escolhe_menor_witness:
  "[ex_box ''B1'' 1.0 5, ex_box ''B2'' 1.0 3, ex_box ''B3'' 2.5 3] \<noteq> [] \<and>
   0 \<le> Metros_Cubicos (ex_box ''B1'' 1.0 5) \<and> 0 \<le> Metros_Cubicos (ex_box ''B2'' 1.0 3) \<and>
   0 \<le> Metros_Cubicos (ex_box ''B3'' 2.5 3) \<and>
   escolher_box_por_altura [] [ex_box ''B1'' 1.0 5, ex_box ''B2'' 1.0 3, ex_box ''B3'' 2.5 3] =
     Inr (Escolhido (ex_box ''B2'' 1.0 3) 0 0 [])"
proof -
  let ?bs = "[ex_box ''B1'' 1.0 5, ex_box ''B2'' 1.0 3, ex_box ''B3'' 2.5 3]"
  have ne: "?bs \<noteq> []" by simp
  have cap: "\<forall>b\<in>set ?bs. 0 \<le> Metros_Cubicos b" by (simp add: ex_box_def)
  from lista_vazia_escolhe_menor [OF ne cap] obtain b where
    r: "escolher_box_por_altura [] ?bs = Inr (Escolhido b 0 0 [])"
    and b: "b \<in> set ?bs"
    and mn: "\<forall>b'\<in>set ?bs. Metros_Cubicos b \<le> Metros_Cubicos b'"
    and f: "find (\<lambda>b'. Metros_Cubicos b' = Metros_Cubicos b) ?bs = Some b"
    by blast
  from mn have "Metros_Cubicos b \<le> 3" by (simp add: ex_box_def)
  with b f have "b = ex_box ''B2'' 1.0 3"
    by (auto simp add: ex_box_def split: if_splits)
  with r cap show ?thesis by simp
qed

subsection \<open>The normalisation of the request\<close>

text \<open>
  Claim C8. \<^verbatim>\<open>calcular_itens\<close> never raises and returns exactly one item for each entry
  of the request whose quantity is positive and whose slug is the slug of a key of the
  catalogue, with that key as name, that quantity, and the metadata of the key; every
  other entry (quantity zero or below, unknown slug) is dropped. The route reads a field
  as 0 when \<^verbatim>\<open>int\<close> raises on its text and as \<open>max 0 n\<close> when \<^verbatim>\<open>int\<close> gives \<open>n\<close>. On the
  request built by the route, the items are those of the UI list whose field has a
  positive quantity.
\<close>

theorem normalizador_um_item_por_entrada:
  "(\<exists>itens. calcular_itens qs = Inr itens \<and>
      map (\<lambda>it. (nome it, qtd it)) itens =
        List.map_filter
          (\<lambda>(slug, q). if 0 < q then map_option (\<lambda>n. (n, q)) (slug_to_nome slug) else None) qs \<and>
      (\<forall>it\<in>set itens.
         0 < qtd it \<and>
         (\<exists>mt. map_of catalogo (nome it) = Some mt \<and> m3 it = meta_m3 mt \<and>
            empilhavel it = get_empilhavel mt \<and> max_emp it = get_max_emp mt \<and>
            altura it = get_altura mt))) \<and>
   (py_int (py_strip (case form field of None \<Rightarrow> ''0'' | Some v \<Rightarrow> if v = [] then ''0'' else v)) = None
      \<longrightarrow> ler_campo form field = 0) \<and>
   (\<forall>n. py_int (py_strip (case form field of None \<Rightarrow> ''0'' | Some v \<Rightarrow> if v = [] then ''0'' else v)) =
          Some n
      \<longrightarrow> ler_campo form field = max 0 n) \<and>
   (\<exists>itens. calcular_itens (ler_quantidades form) = Inr itens \<and>
      map (\<lambda>it. (nome it, qtd it)) itens =
        map (\<lambda>u. (ui_nome u, ler_campo form (''qty_'' @ ui_slug u)))
          (filter (\<lambda>u. 0 < ler_campo form (''qty_'' @ ui_slug u)) itens_ui))"
proof -
  have 1: "map (\<lambda>it. (nome it, qtd it)) (List.map_filter item_da_entrada qs) =
        List.map_filter
          (\<lambda>(slug, q). if 0 < q then map_option (\<lambda>n. (n, q)) (slug_to_nome slug) else None) qs"
    unfolding map_map_filter
    by (rule map_filter_cong_set) (auto simp add: item_da_entrada_par)
  have 2: "\<forall>it\<in>set (List.map_filter item_da_entrada qs).
         0 < qtd it \<and>
         (\<exists>mt. map_of catalogo (nome it) = Some mt \<and> m3 it = meta_m3 mt \<and>
            empilhavel it = get_empilhavel mt \<and> max_emp it = get_max_emp mt \<and>
            altura it = get_altura mt)"
    unfolding set_map_filter using item_da_entrada_dados by blast
  have 3: "py_int (py_strip (case form field of None \<Rightarrow> ''0'' | Some v \<Rightarrow> if v = [] then ''0'' else v)) = None
      \<Longrightarrow> ler_campo form field = 0"
    by (simp add: ler_campo_def)
  have 4: "py_int (py_strip (case form field of None \<Rightarrow> ''0'' | Some v \<Rightarrow> if v = [] then ''0'' else v)) =
          Some n \<Longrightarrow> ler_campo form field = max 0 n" for n
    by (simp add: ler_campo_def)
  from 1 2 3 4 calcular_itens_eq [of qs] calcular_itens_pedido [of form] pedido_pares [of form]
  show ?thesis by (intro conjI exI [of _ "List.map_filter item_da_entrada qs"] impI allI
        exI [of _ "List.map_filter item_da_entrada
            (map (\<lambda>u. (ui_slug u, ler_campo form (''qty_'' @ ui_slug u))) itens_ui)"]) simp_all
qed

theorem normalizador_um_item_por_entrada_witness:
  "py_int (py_strip ''abc'') = None \<and>
   ler_campo [''qty_sofa'' \<mapsto> ''2'', ''qty_geladeira'' \<mapsto> ''abc'', ''qty_tv'' \<mapsto> ''-3'']
     ''qty_geladeira'' = 0 \<and>
   py_int (py_strip ''-3'') = Some (- 3) \<and>
   ler_campo [''qty_sofa'' \<mapsto> ''2'', ''qty_geladeira'' \<mapsto> ''abc'', ''qty_tv'' \<mapsto> ''-3'']
     ''qty_tv'' = 0 \<and>
   calcular_itens [(''sofa'', 2), (''nada'', 5), (''tv'', 0), (''mesa'', - 1)] = Inr [ex_sofa] \<and>
   calcular_itens
     (ler_quantidades [''qty_sofa'' \<mapsto> ''2'', ''qty_geladeira'' \<mapsto> ''abc'', ''qty_tv'' \<mapsto> ''-3'']) =
     Inr [ex_sofa]"
proof -
  let ?F = "[''qty_sofa'' \<mapsto> ''2'', ''qty_geladeira'' \<mapsto> ''abc'', ''qty_tv'' \<mapsto> ''-3'']"
  have a: "py_int (py_strip ''abc'') = None" by code_simp
  have b: "py_int (py_strip ''-3'') = Some (- 3)" by code_simp
  have fa: "py_strip (case ?F ''qty_geladeira'' of None \<Rightarrow> ''0''
                      | Some v \<Rightarrow> if v = [] then ''0'' else v) = py_strip ''abc''"
    by simp
  have fb: "py_strip (case ?F ''qty_tv'' of None \<Rightarrow> ''0''
                      | Some v \<Rightarrow> if v = [] then ''0'' else v) = py_strip ''-3''"
    by simp
  from normalizador_um_item_por_entrada [of "[]" ?F "''qty_geladeira''"] a
  have 1: "ler_campo ?F ''qty_geladeira'' = 0" unfolding fa by blast
  from normalizador_um_item_por_entrada [of "[]" ?F "''qty_tv''"] b
  have 2: "ler_campo ?F ''qty_tv'' = 0" unfolding fb by fastforce
  have 3: "calcular_itens [(''sofa'', 2), (''nada'', 5), (''tv'', 0), (''mesa'', - 1)] =
      Inr [ex_sofa]"
    by code_simp
  have 4: "calcular_itens (ler_quantidades ?F) = Inr [ex_sofa]"
    by code_simp
  from a 1 b 2 3 4 show ?thesis by (intro conjI)
qed

text \<open>
  Claim C7 as stated fails. The request that asks for two \<open>geladeira\<close> and two \<open>sofa\<close>,
  entered in this order (the order in which the route enters them), gives \<open>geladeira\<close>
  before \<open>sofa\<close>, while \<open>sofa\<close> is the first key of the catalogue and \<open>geladeira\<close> the
  second. The same two entries in the other order give the other output, so the order of
  the output is the order of insertion into the request.
\<close>

theorem ordem_do_catalogo_counterexample:
  "calcular_itens [(''geladeira'', 2), (''sofa'', 2)] = Inr [ex_geladeira, ex_sofa] \<and>
   calcular_itens [(''sofa'', 2), (''geladeira'', 2)] = Inr [ex_sofa, ex_geladeira] \<and>
   posicao ''sofa'' = 0 \<and> posicao ''geladeira'' = 1 \<and>
   \<not> em_ordem_do_catalogo (map nome [ex_geladeira, ex_sofa])"
  by code_simp

text \<open>
  Claim C7, as amended. The list \<^verbatim>\<open>calcular_itens\<close> returns follows the order of the
  entries of the request. The route builds the request in the order of \<^verbatim>\<open>itens_ui\<close>,
  which is the catalogue sorted by name, so there the items come sorted by name. The
  order of the keys of the catalogue plays no part.
\<close>

theorem saida_na_ordem_do_pedido:
  "(\<exists>itens. calcular_itens qs = Inr itens \<and>
      map nome itens =
        List.map_filter (\<lambda>(slug, q). if 0 < q then slug_to_nome slug else None) qs) \<and>
   (\<exists>itens. calcular_itens (ler_quantidades form) = Inr itens \<and>
      map nome itens =
        map ui_nome (filter (\<lambda>u. 0 < ler_campo form (''qty_'' @ ui_slug u)) itens_ui) \<and>
      sorted (map nome itens))"
proof -
  have 1: "map nome (List.map_filter item_da_entrada qs) =
        List.map_filter (\<lambda>(slug, q). if 0 < q then slug_to_nome slug else None) qs"
    unfolding map_map_filter
    by (rule map_filter_cong_set) (auto simp add: item_da_entrada_nome)
  let ?its = "List.map_filter item_da_entrada
            (map (\<lambda>u. (ui_slug u, ler_campo form (''qty_'' @ ui_slug u))) itens_ui)"
  have "map nome ?its = map fst (map (\<lambda>it. (nome it, qtd it)) ?its)" by (simp add: comp_def)
  then have 2: "map nome ?its =
      map ui_nome (filter (\<lambda>u. 0 < ler_campo form (''qty_'' @ ui_slug u)) itens_ui)"
    unfolding pedido_pares by (simp add: comp_def)
  have 3: "sorted (map nome ?its)" unfolding 2 using itens_ui_sorted by (rule sorted_filter)
  from 1 2 3 calcular_itens_eq [of qs] calcular_itens_pedido [of form] show ?thesis by blast
qed

theorem saida_na_ordem_do_pedido_witness:
  "calcular_itens [(''sofa'', 2), (''geladeira'', 2)] = Inr [ex_sofa, ex_geladeira] \<and>
   List.map_filter (\<lambda>(slug, q). if 0 < q then slug_to_nome slug else None)
     [(''sofa'', 2), (''geladeira'', 2 :: int)] = [''sofa'', ''geladeira'']"
proof -
  have r: "calcular_itens [(''sofa'', 2), (''geladeira'', 2)] = Inr [ex_sofa, ex_geladeira]"
    by code_simp
  from saida_na_ordem_do_pedido [of "[(''sofa'', 2), (''geladeira'', 2)]"] r
  show ?thesis by (auto simp add: ex_sofa_def ex_geladeira_def)
qed

end
